theory Spec2Isabelle
  imports Complex_Main
begin

section \<open>Numbers and vectors\<close>

text \<open>
  The program computes with JavaScript numbers and GLSL floats. Both are modelled as
  mathematical reals, the reading under which the specification states its formulas
  (the data model calls the viewport fields reals). Rounding, infinities and NaN are
  outside the model; where the source calls a function outside its domain (the GLSL
  logarithm of a non-positive number) the model returns \<open>None\<close> instead of HOL's
  arbitrary value. Loop counters and iteration caps are integers.
\<close>

type_synonym vec2 = "real \<times> real"

definition dot :: "vec2 \<Rightarrow> vec2 \<Rightarrow> real" where
  "dot a b = fst a * fst b + snd a * snd b"

text \<open>
  The body of every GLSL loop:
  \<^verbatim>\<open>vec2 zSquared = vec2(z.x * z.x - z.y * z.y, 2.0 * z.x * z.y); z = zSquared + c;\<close>
\<close>

definition zSquared :: "vec2 \<Rightarrow> vec2" where
  "zSquared z = (fst z * fst z - snd z * snd z, 2 * fst z * snd z)"

definition iterate :: "vec2 \<Rightarrow> vec2 \<Rightarrow> vec2" where
  "iterate c z = (fst (zSquared z) + fst c, snd (zSquared z) + snd c)"

text \<open>GLSL \<open>log(x)\<close>: the result is undefined for \<open>x <= 0\<close>.\<close>

definition glsl_log :: "real \<Rightarrow> real option" where
  "glsl_log x = (if 0 < x then Some (ln x) else None)"

text \<open>
  The smooth colouring block shared by the shaders:
  \<^verbatim>\<open>float log_zn = log(dot(z, z)) / 2.0;
float nu = log(log_zn / log(2.0)) / log(2.0);
i = i + 1.0 - nu;\<close>
\<close>

definition smooth :: "nat \<Rightarrow> vec2 \<Rightarrow> real option" where
  "smooth i z =
     (case glsl_log (dot z z) of
        None \<Rightarrow> None
      | Some l \<Rightarrow>
          (let log_zn = l / 2 in
           case glsl_log (log_zn / ln 2) of
             None \<Rightarrow> None
           | Some l2 \<Rightarrow> (let nu = l2 / ln 2 in Some (real i + 1 - nu))))"

section \<open>The escape-time evaluators\<close>

subsection \<open>The stand-alone fragment shader\<close>

text \<open>
  \<^verbatim>\<open>for (i = 0.0; i < float(u_max_iterations); i++) {
    z = zSquared + c;
    if (dot(z, z) > 4.0) { break; }
}\<close>
  The loop state is the counter \<open>i\<close>, the point \<open>z\<close> and a ghost counter of the
  executions of the recurrence, which the source does not hold.
\<close>

record loop_state =
  counter :: nat
  point :: vec2
  steps :: nat

function main_loop :: "vec2 \<Rightarrow> int \<Rightarrow> loop_state \<Rightarrow> loop_state" where
  "main_loop c u_max_iterations s =
     (if int (counter s) < u_max_iterations then
        (let z = iterate c (point s) in
         if dot z z > 4 then s\<lparr>point := z, steps := Suc (steps s)\<rparr>
         else main_loop c u_max_iterations
                \<lparr>counter = Suc (counter s), point = z, steps = Suc (steps s)\<rparr>)
      else s)"
  by pat_completeness auto
termination
  by (relation "measure (\<lambda>(c, m, s). nat (m - int (counter s)))") auto

definition loop_start :: loop_state where
  "loop_start = \<lparr>counter = 0, point = (0, 0), steps = 0\<rparr>"

text \<open>
  The value handed to \<open>getColor\<close>:
  \<^verbatim>\<open>if (i < float(u_max_iterations)) { ... i = i + 1.0 - nu; }\<close>
\<close>

definition main_value :: "vec2 \<Rightarrow> int \<Rightarrow> real option" where
  "main_value c u_max_iterations =
     (let s = main_loop c u_max_iterations loop_start in
      if int (counter s) < u_max_iterations then smooth (counter s) (point s)
      else Some (real (counter s)))"

subsection \<open>The shader inlined in the WebGL renderer\<close>

text \<open>
  \<^verbatim>\<open>float iterCount = 0.0;
int maxIter = u_max_iterations;
for (int iter = 0; iter < 1000; iter++) {
    if (float(iter) >= float(maxIter)) break;
    z = zSquared + c;
    if (dot(z, z) > 4.0) { iterCount = float(iter); break; }
    iterCount = float(iter);
}\<close>
\<close>

record frag_state =
  iter :: nat
  zval :: vec2
  iterCount :: nat
  executed :: nat

function fragment_loop :: "vec2 \<Rightarrow> int \<Rightarrow> frag_state \<Rightarrow> frag_state" where
  "fragment_loop c maxIter s =
     (if iter s < 1000 then
        (if int (iter s) \<ge> maxIter then s
         else
           (let z' = iterate c (zval s) in
            if dot z' z' > 4 then
              s\<lparr>zval := z', iterCount := iter s, executed := Suc (executed s)\<rparr>
            else fragment_loop c maxIter
                   \<lparr>iter = Suc (iter s), zval = z', iterCount = iter s,
                    executed = Suc (executed s)\<rparr>))
      else s)"
  by pat_completeness auto
termination
  by (relation "measure (\<lambda>(c, m, s). 1000 - iter s)") auto

definition frag_start :: frag_state where
  "frag_start = \<lparr>iter = 0, zval = (0, 0), iterCount = 0, executed = 0\<rparr>"

text \<open>
  \<^verbatim>\<open>if (iterCount < float(maxIter)) { ... iterCount = iterCount + 1.0 - smoothingTerm; }\<close>
\<close>

definition fragment_value :: "vec2 \<Rightarrow> int \<Rightarrow> real option" where
  "fragment_value c maxIter =
     (let s = fragment_loop c maxIter frag_start in
      if int (iterCount s) < maxIter then smooth (iterCount s) (zval s)
      else Some (real (iterCount s)))"

subsection \<open>The CPU pixel loop\<close>

text \<open>
  \<^verbatim>\<open>while (x*x + y*y <= 4 && iteration < maxIter) {
    const xTemp = x*x - y*y + x0;
    y = 2*x*y + y0;
    x = xTemp;
    iteration++;
}
return iteration;\<close>
\<close>

function calc_loop :: "real \<Rightarrow> real \<Rightarrow> int \<Rightarrow> real \<Rightarrow> real \<Rightarrow> nat \<Rightarrow> nat" where
  "calc_loop x0 y0 maxIter x y iteration =
     (if x * x + y * y \<le> 4 \<and> int iteration < maxIter then
        calc_loop x0 y0 maxIter (x * x - y * y + x0) (2 * x * y + y0) (Suc iteration)
      else iteration)"
  by pat_completeness auto
termination
  by (relation "measure (\<lambda>(x0, y0, m, x, y, i). nat (m - int i))") auto

definition calculateMandelbrot :: "int \<Rightarrow> real \<Rightarrow> real \<Rightarrow> nat" where
  "calculateMandelbrot maxIter x0 y0 = calc_loop x0 y0 maxIter 0 0 0"

text \<open>
  The mathematical recurrence the claims speak of: \<open>orbit c k\<close> is \<open>z\<close> after \<open>k\<close>
  applications of \<open>z \<leftarrow> z\<^sup>2 + c\<close> to \<open>0\<close>. The point \<open>c\<close> escapes at iteration \<open>n\<close>
  (counted from 0, as the shaders' loop counters do) when \<open>orbit c (Suc n)\<close> is the first
  point of the orbit with \<open>|z|\<^sup>2 > 4\<close>; it stays bounded for \<open>n\<close> steps when none of
  the first \<open>n\<close> points does.
\<close>

definition orbit :: "vec2 \<Rightarrow> nat \<Rightarrow> vec2" where
  "orbit c k = (iterate c ^^ k) (0, 0)"

definition bounded_for :: "vec2 \<Rightarrow> nat \<Rightarrow> bool" where
  "bounded_for c n \<longleftrightarrow> (\<forall>j\<in>{..<n}. dot (orbit c (Suc j)) (orbit c (Suc j)) \<le> 4)"

definition escapes_at :: "vec2 \<Rightarrow> nat \<Rightarrow> bool" where
  "escapes_at c n \<longleftrightarrow> bounded_for c n \<and> dot (orbit c (Suc n)) (orbit c (Suc n)) > 4"

section \<open>The WebGL renderer\<close>

text \<open>
  The state of \<open>WebGLMandelbrotRenderer\<close> that the viewport operations read and
  write: the configured iteration cap, the viewport, and the canvas with its raster
  size (\<open>canvas.width\<close>, \<open>canvas.height\<close>) and its display size
  (\<open>canvas.clientWidth\<close>, \<open>canvas.clientHeight\<close>). The GL handles and the drawn
  frame are not modelled.
\<close>

record renderer =
  maxIterations :: int
  viewportX :: real
  viewportY :: real
  zoom :: real
  canvas_width :: int
  canvas_height :: int
  clientWidth :: int
  clientHeight :: int

text \<open>
  The dynamic resolution settings are private fields with initialisers that no method
  assigns:
  \<^verbatim>\<open>private baseResolutionFactor: number = 1.0;
private maxResolutionFactor: number = 2.0;
private zoomThreshold: number = 100.0;\<close>
\<close>

definition baseResolutionFactor :: real where
  "baseResolutionFactor = 1.0"

definition maxResolutionFactor :: real where
  "maxResolutionFactor = 2.0"

definition zoomThreshold :: real where
  "zoomThreshold = 100.0"

definition calculateResolutionFactor :: "renderer \<Rightarrow> real" where
  "calculateResolutionFactor r =
     (if zoom r \<le> zoomThreshold then baseResolutionFactor
      else
        (let zoomRatio = min (zoom r / zoomThreshold) maxResolutionFactor
         in min (baseResolutionFactor * zoomRatio) maxResolutionFactor))"

definition resizeCanvasToDisplaySize :: "renderer \<Rightarrow> renderer" where
  "resizeCanvasToDisplaySize r =
     (let displayWidth = clientWidth r;
          displayHeight = clientHeight r;
          resolutionFactor = calculateResolutionFactor r;
          targetWidth = \<lfloor>real_of_int displayWidth * resolutionFactor\<rfloor>;
          targetHeight = \<lfloor>real_of_int displayHeight * resolutionFactor\<rfloor>
      in if canvas_width r \<noteq> targetWidth \<or> canvas_height r \<noteq> targetHeight
         then r\<lparr>canvas_width := targetWidth, canvas_height := targetHeight\<rparr>
         else r)"

text \<open>\<open>render()\<close> resizes the canvas and draws; only the resize changes the state.\<close>

definition render :: "renderer \<Rightarrow> renderer" where
  "render r = resizeCanvasToDisplaySize r"

definition updateViewport :: "real \<Rightarrow> real \<Rightarrow> renderer \<Rightarrow> renderer" where
  "updateViewport x y r = render (r\<lparr>viewportX := x, viewportY := y\<rparr>)"

definition updateZoom :: "real \<Rightarrow> renderer \<Rightarrow> renderer" where
  "updateZoom zoom' r = render (r\<lparr>zoom := zoom'\<rparr>)"

definition pan :: "real \<Rightarrow> real \<Rightarrow> renderer \<Rightarrow> renderer" where
  "pan deltaX deltaY r =
     (let aspectRatio = real_of_int (canvas_width r) / real_of_int (canvas_height r);
          fractalWidth = 3.0 / zoom r * aspectRatio;
          fractalHeight = 3.0 / zoom r;
          fractalDeltaX = deltaX * fractalWidth / real_of_int (canvas_width r);
          fractalDeltaY = deltaY * fractalHeight / real_of_int (canvas_height r)
      in render (r\<lparr>viewportX := viewportX r - fractalDeltaX,
                     viewportY := viewportY r + fractalDeltaY\<rparr>))"

definition resetView :: "renderer \<Rightarrow> renderer" where
  "resetView r = render (r\<lparr>viewportX := - 0.5, viewportY := 0, zoom := 1\<rparr>)"

record viewport =
  view_x :: real
  view_y :: real
  view_zoom :: real

definition getViewport :: "renderer \<Rightarrow> viewport" where
  "getViewport r = \<lparr>view_x = viewportX r, view_y = viewportY r, view_zoom = zoom r\<rparr>"

text \<open>
  A renderer as the constructor and the first \<open>render()\<close> leave it on a display of
  the given size: the default viewport, and a raster of the display's size. The raster
  a canvas element starts with, 300 by 150, is replaced by that first resize.
\<close>

definition new_renderer :: "int \<Rightarrow> int \<Rightarrow> int \<Rightarrow> renderer" where
  "new_renderer maxIter displayWidth displayHeight =
     render \<lparr>maxIterations = maxIter, viewportX = - 0.5, viewportY = 0, zoom = 1,
             canvas_width = 300, canvas_height = 150,
             clientWidth = displayWidth, clientHeight = displayHeight\<rparr>"

section \<open>Screen to complex plane\<close>

text \<open>
  The fragment shader maps a fragment to the point \<open>c\<close>:
  \<^verbatim>\<open>float aspectRatio = u_resolution.x / u_resolution.y;
float rangeY = 2.0 / u_zoom;
float rangeX = rangeY * aspectRatio;
vec2 uv = gl_FragCoord.xy / u_resolution;
vec2 c = u_viewport_center + vec2((uv.x - 0.5) * rangeX, (uv.y - 0.5) * rangeY);\<close>
\<close>

definition fragment_c :: "vec2 \<Rightarrow> real \<Rightarrow> vec2 \<Rightarrow> vec2 \<Rightarrow> vec2" where
  "fragment_c u_viewport_center u_zoom u_resolution gl_FragCoord =
     (let aspectRatio = fst u_resolution / snd u_resolution;
          rangeY = 2.0 / u_zoom;
          rangeX = rangeY * aspectRatio;
          uv = (fst gl_FragCoord / fst u_resolution, snd gl_FragCoord / snd u_resolution)
      in (fst u_viewport_center + (fst uv - 0.5) * rangeX,
          snd u_viewport_center + (snd uv - 0.5) * rangeY))"

text \<open>
  \<open>gl_FragCoord\<close> is in window coordinates, whose origin is the lower left corner of
  the canvas, while pointer events count \<open>y\<close> from the top: the fragment under the
  screen position \<open>(px, py)\<close> of a canvas of height \<open>h\<close> is \<open>(px, h - py)\<close>.
\<close>

definition fragment_at :: "real \<Rightarrow> real \<Rightarrow> real \<Rightarrow> vec2" where
  "fragment_at h px py = (px, h - py)"

text \<open>
  The point the renderer draws at a screen position, with the uniforms as
  \<open>render()\<close> binds them (\<open>u_resolution\<close> is the raster size), for a raster of the
  display's size, where screen positions and raster positions agree.
\<close>

definition drawn_at :: "renderer \<Rightarrow> real \<Rightarrow> real \<Rightarrow> vec2" where
  "drawn_at r px py =
     fragment_c (viewportX r, viewportY r) (zoom r)
       (real_of_int (canvas_width r), real_of_int (canvas_height r))
       (fragment_at (real_of_int (canvas_height r)) px py)"

text \<open>The tooltip's \<open>screenToComplex(x, y)\<close>, a pair \<open>(real, imag)\<close>.\<close>

definition screenToComplex :: "renderer \<Rightarrow> real \<Rightarrow> real \<Rightarrow> vec2" where
  "screenToComplex r px py =
     (let canvasWidth = real_of_int (canvas_width r);
          canvasHeight = real_of_int (canvas_height r);
          vp = getViewport r;
          aspectRatio = canvasWidth / canvasHeight;
          rangeY = 2.0 / view_zoom vp;
          rangeX = rangeY * aspectRatio;
          minReal = view_x vp - (rangeX / 2);
          maxReal = view_x vp + (rangeX / 2);
          minImag = view_y vp - (rangeY / 2);
          maxImag = view_y vp + (rangeY / 2);
          normalizedX = px / canvasWidth;
          normalizedY = py / canvasHeight
      in (minReal + normalizedX * (maxReal - minReal),
          minImag + normalizedY * (maxImag - minImag)))"

text \<open>
  The Coordinate Mapper as the specification words it, for comparison with the code:
  \<open>real = centerX + (px/width - 0.5) * rangeX\<close> and
  \<open>imag = centerY + (0.5 - py/height) * rangeY\<close>, where \<open>rangeY = 2.0 / zoom\<close> and
  \<open>rangeX = rangeY * (width / height)\<close>.
\<close>

definition spec_screenToComplex :: "viewport \<Rightarrow> real \<Rightarrow> real \<Rightarrow> real \<Rightarrow> real \<Rightarrow> vec2" where
  "spec_screenToComplex vp width height px py =
     (let aspectRatio = width / height;
          rangeY = 2.0 / view_zoom vp;
          rangeX = rangeY * aspectRatio
      in (view_x vp + (px / width - 0.5) * rangeX,
          view_y vp + (0.5 - py / height) * rangeY))"

section \<open>The interaction controller\<close>

datatype InteractionMode = Pan | Select

text \<open>
  The fields of \<open>MandelbrotSet\<close>; its canvas is the renderer's. The selection
  rectangle is a DOM element and is left out.
\<close>

record MandelbrotSet =
  renderer_of :: renderer
  isDragging :: bool
  lastX :: real
  lastY :: real
  interactionMode :: InteractionMode
  selectionStart :: "(real \<times> real) option"

definition zoomToSelection :: "real \<Rightarrow> real \<Rightarrow> real \<Rightarrow> real \<Rightarrow> MandelbrotSet \<Rightarrow> MandelbrotSet" where
  "zoomToSelection startX startY endX endY m =
     (let centerX = (startX + endX) / 2;
          centerY = (startY + endY) / 2;
          currentViewport = getViewport (renderer_of m);
          canvasWidth = real_of_int (canvas_width (renderer_of m));
          canvasHeight = real_of_int (canvas_height (renderer_of m));
          aspectRatio = canvasWidth / canvasHeight;
          rangeY = 2.0 / view_zoom currentViewport;
          rangeX = rangeY * aspectRatio;
          minX = view_x currentViewport - rangeX / 2;
          minY = view_y currentViewport - rangeY / 2;
          stepX = rangeX / canvasWidth;
          stepY = rangeY / canvasHeight;
          fractalCenterX = minX + centerX * stepX;
          fractalCenterY = minY + centerY * stepY;
          selectionWidth = \<bar>endX - startX\<bar>;
          selectionHeight = \<bar>endY - startY\<bar>;
          zoomFactorX = canvasWidth / selectionWidth;
          zoomFactorY = canvasHeight / selectionHeight;
          zoomFactor = min zoomFactorX zoomFactorY
      in m\<lparr>renderer_of :=
            updateZoom (view_zoom currentViewport * zoomFactor)
              (updateViewport fractalCenterX fractalCenterY (renderer_of m))\<rparr>)"

text \<open>The canvas listeners for \<open>mousedown\<close> and \<open>mouseup\<close>, at \<open>(e.offsetX, e.offsetY)\<close>.\<close>

definition canvas_mousedown :: "real \<Rightarrow> real \<Rightarrow> MandelbrotSet \<Rightarrow> MandelbrotSet" where
  "canvas_mousedown offsetX offsetY m =
     (let m1 = m\<lparr>isDragging := True, lastX := offsetX, lastY := offsetY\<rparr>
      in if interactionMode m1 = Select
         then m1\<lparr>selectionStart := Some (offsetX, offsetY)\<rparr>
         else m1)"

definition canvas_mouseup :: "real \<Rightarrow> real \<Rightarrow> MandelbrotSet \<Rightarrow> MandelbrotSet" where
  "canvas_mouseup offsetX offsetY m =
     (let m1 =
        (if isDragging m \<and> interactionMode m = Select then
           (case selectionStart m of
              None \<Rightarrow> m
            | Some start \<Rightarrow>
                (let width = \<bar>offsetX - fst start\<bar>;
                     height = \<bar>offsetY - snd start\<bar>;
                     m2 = (if width > 10 \<and> height > 10
                           then zoomToSelection (fst start) (snd start) offsetX offsetY m
                           else m)
                 in m2\<lparr>selectionStart := None\<rparr>))
         else m)
      in m1\<lparr>isDragging := False\<rparr>)"

text \<open>
  The wheel listener of \<open>src/index.ts\<close>. The pointer \<open>(x, y)\<close> is
  \<open>(e.clientX - rect.left, e.clientY - rect.top)\<close>.
\<close>

definition canvas_wheel :: "real \<Rightarrow> real \<Rightarrow> real \<Rightarrow> MandelbrotSet \<Rightarrow> MandelbrotSet" where
  "canvas_wheel x y deltaY m =
     (let vp = getViewport (renderer_of m);
          ndcX = (x / real_of_int (canvas_width (renderer_of m))) * 2 - 1;
          ndcY = (y / real_of_int (canvas_height (renderer_of m))) * (- 2) + 1;
          fractalX = view_x vp + ndcX * (2 / view_zoom vp);
          fractalY = view_y vp + ndcY * (2 / view_zoom vp);
          zoomFactor = (if deltaY > 0 then 0.8 else 1.2);
          newZoom = view_zoom vp * zoomFactor;
          newViewportX = fractalX - ndcX * (2 / newZoom);
          newViewportY = fractalY - ndcY * (2 / newZoom)
      in m\<lparr>renderer_of :=
            updateZoom newZoom (updateViewport newViewportX newViewportY (renderer_of m))\<rparr>)"

text \<open>
  The wheel listener of the later revision of the file, which works from the pointer's
  position relative to the canvas's bounding rectangle (\<open>rect.width\<close>,
  \<open>rect.height\<close>) and the display's aspect ratio.
\<close>

definition canvas_wheel_relative ::
    "real \<Rightarrow> real \<Rightarrow> real \<Rightarrow> real \<Rightarrow> real \<Rightarrow> MandelbrotSet \<Rightarrow> MandelbrotSet" where
  "canvas_wheel_relative rect_width rect_height x y deltaY m =
     (let relativeX = x / rect_width;
          relativeY = y / rect_height;
          vp = getViewport (renderer_of m);
          aspectRatio = real_of_int (clientWidth (renderer_of m)) /
                        real_of_int (clientHeight (renderer_of m));
          rangeY = 2.0 / view_zoom vp;
          rangeX = rangeY * aspectRatio;
          fractalX = view_x vp + (relativeX - 0.5) * rangeX;
          fractalY = view_y vp + (0.5 - relativeY) * rangeY;
          zoomFactor = (if deltaY > 0 then 0.8 else 1.2);
          newZoom = view_zoom vp * zoomFactor;
          newRangeY = 2.0 / newZoom;
          newRangeX = newRangeY * aspectRatio;
          newViewportX = fractalX - (relativeX - 0.5) * newRangeX;
          newViewportY = fractalY - (0.5 - relativeY) * newRangeY
      in m\<lparr>renderer_of :=
            updateZoom newZoom (updateViewport newViewportX newViewportY (renderer_of m))\<rparr>)"

text \<open>A controller as its constructor leaves it.\<close>

definition new_MandelbrotSet :: "int \<Rightarrow> int \<Rightarrow> int \<Rightarrow> MandelbrotSet" where
  "new_MandelbrotSet maxIter displayWidth displayHeight =
     \<lparr>renderer_of = new_renderer maxIter displayWidth displayHeight,
      isDragging = False, lastX = 0, lastY = 0, interactionMode = Pan,
      selectionStart = None\<rparr>"

declare main_loop.simps [simp del] fragment_loop.simps [simp del] calc_loop.simps [simp del]

section \<open>The loops, step by step\<close>

text \<open>
  Each loop is characterised along the recurrence from its current point: it stops at
  the first escaping point if the cap (and, for the inlined shader, the bound 1000)
  lets it get there, and at the cap otherwise.
\<close>

lemma shifted_bound:
  assumes "\<forall>j<Suc n. dot ((iterate c ^^ Suc j) w) ((iterate c ^^ Suc j) w) \<le> 4"
  shows "\<forall>j<n. dot ((iterate c ^^ Suc j) (iterate c w)) ((iterate c ^^ Suc j) (iterate c w)) \<le> 4"
proof (intro allI impI)
  fix j assume "j < n"
  then have "Suc j < Suc n" by simp
  with assms have "dot ((iterate c ^^ Suc (Suc j)) w) ((iterate c ^^ Suc (Suc j)) w) \<le> 4"
    by blast
  then show "dot ((iterate c ^^ Suc j) (iterate c w)) ((iterate c ^^ Suc j) (iterate c w)) \<le> 4"
    by (simp add: funpow_swap1)
qed

lemma first_bound:
  assumes "\<forall>j<Suc n. dot ((iterate c ^^ Suc j) w) ((iterate c ^^ Suc j) w) \<le> 4"
  shows "dot (iterate c w) (iterate c w) \<le> 4"
  using assms by (auto dest: spec [of _ 0])

lemma main_loop_escape:
  "\<forall>j<n. dot ((iterate c ^^ Suc j) (point s)) ((iterate c ^^ Suc j) (point s)) \<le> 4 \<Longrightarrow>
   dot ((iterate c ^^ Suc n) (point s)) ((iterate c ^^ Suc n) (point s)) > 4 \<Longrightarrow>
   int (counter s + n) < m \<Longrightarrow>
   main_loop c m s =
     \<lparr>counter = counter s + n, point = (iterate c ^^ Suc n) (point s), steps = steps s + Suc n\<rparr>"
proof (induction n arbitrary: s)
  case 0
  then show ?case
    by (subst main_loop.simps) (simp add: Let_def)
next
  case (Suc n)
  let ?s' = "\<lparr>counter = Suc (counter s), point = iterate c (point s), steps = Suc (steps s)\<rparr>"
  have le: "dot (iterate c (point s)) (iterate c (point s)) \<le> 4"
    by (rule first_bound [OF Suc.prems(1)])
  have a: "\<forall>j<n. dot ((iterate c ^^ Suc j) (point ?s')) ((iterate c ^^ Suc j) (point ?s')) \<le> 4"
    using shifted_bound [OF Suc.prems(1)] by simp
  have b: "dot ((iterate c ^^ Suc n) (point ?s')) ((iterate c ^^ Suc n) (point ?s')) > 4"
    using Suc.prems(2) by (simp add: funpow_swap1)
  have c: "int (counter ?s' + n) < m" using Suc.prems(3) by simp
  have "main_loop c m s = main_loop c m ?s'"
    using le Suc.prems(3) by (subst main_loop.simps) (simp add: Let_def)
  also have "\<dots> = \<lparr>counter = counter ?s' + n, point = (iterate c ^^ Suc n) (point ?s'),
                     steps = steps ?s' + Suc n\<rparr>"
    by (rule Suc.IH [OF a b c])
  finally show ?case by (simp add: funpow_swap1)
qed

lemma main_loop_bounded:
  "\<forall>j<n. dot ((iterate c ^^ Suc j) (point s)) ((iterate c ^^ Suc j) (point s)) \<le> 4 \<Longrightarrow>
   int (counter s + n) = m \<Longrightarrow>
   main_loop c m s =
     \<lparr>counter = counter s + n, point = (iterate c ^^ n) (point s), steps = steps s + n\<rparr>"
proof (induction n arbitrary: s)
  case 0
  then show ?case
    by (subst main_loop.simps) simp
next
  case (Suc n)
  let ?s' = "\<lparr>counter = Suc (counter s), point = iterate c (point s), steps = Suc (steps s)\<rparr>"
  have le: "dot (iterate c (point s)) (iterate c (point s)) \<le> 4"
    by (rule first_bound [OF Suc.prems(1)])
  have a: "\<forall>j<n. dot ((iterate c ^^ Suc j) (point ?s')) ((iterate c ^^ Suc j) (point ?s')) \<le> 4"
    using shifted_bound [OF Suc.prems(1)] by simp
  have c: "int (counter ?s' + n) = m" using Suc.prems(2) by simp
  have "main_loop c m s = main_loop c m ?s'"
    using le Suc.prems(2) by (subst main_loop.simps) (simp add: Let_def)
  also have "\<dots> = \<lparr>counter = counter ?s' + n, point = (iterate c ^^ n) (point ?s'),
                     steps = steps ?s' + n\<rparr>"
    by (rule Suc.IH [OF a c])
  finally show ?case by (simp add: funpow_swap1)
qed

lemma fragment_loop_escape:
  "\<forall>j<n. dot ((iterate c ^^ Suc j) (zval s)) ((iterate c ^^ Suc j) (zval s)) \<le> 4 \<Longrightarrow>
   dot ((iterate c ^^ Suc n) (zval s)) ((iterate c ^^ Suc n) (zval s)) > 4 \<Longrightarrow>
   int (iter s + n) < m \<Longrightarrow> iter s + n < 1000 \<Longrightarrow>
   fragment_loop c m s =
     \<lparr>iter = iter s + n, zval = (iterate c ^^ Suc n) (zval s), iterCount = iter s + n,
      executed = executed s + Suc n\<rparr>"
proof (induction n arbitrary: s)
  case 0
  then show ?case
    by (subst fragment_loop.simps) (simp add: Let_def)
next
  case (Suc n)
  let ?s' = "\<lparr>iter = Suc (iter s), zval = iterate c (zval s), iterCount = iter s,
                executed = Suc (executed s)\<rparr>"
  have le: "dot (iterate c (zval s)) (iterate c (zval s)) \<le> 4"
    by (rule first_bound [OF Suc.prems(1)])
  have a: "\<forall>j<n. dot ((iterate c ^^ Suc j) (zval ?s')) ((iterate c ^^ Suc j) (zval ?s')) \<le> 4"
    using shifted_bound [OF Suc.prems(1)] by simp
  have b: "dot ((iterate c ^^ Suc n) (zval ?s')) ((iterate c ^^ Suc n) (zval ?s')) > 4"
    using Suc.prems(2) by (simp add: funpow_swap1)
  have c: "int (iter ?s' + n) < m" using Suc.prems(3) by simp
  have d: "iter ?s' + n < 1000" using Suc.prems(4) by simp
  have "fragment_loop c m s = fragment_loop c m ?s'"
    using le Suc.prems(3,4) by (subst fragment_loop.simps) (simp add: Let_def)
  also have "\<dots> = \<lparr>iter = iter ?s' + n, zval = (iterate c ^^ Suc n) (zval ?s'),
                     iterCount = iter ?s' + n, executed = executed ?s' + Suc n\<rparr>"
    by (rule Suc.IH [OF a b c d])
  finally show ?case by (simp add: funpow_swap1)
qed

lemma fragment_loop_bounded:
  "\<forall>j<n. dot ((iterate c ^^ Suc j) (zval s)) ((iterate c ^^ Suc j) (zval s)) \<le> 4 \<Longrightarrow>
   iter s + n \<le> 1000 \<Longrightarrow> int (iter s + n) \<le> m \<Longrightarrow>
   iter s + n = 1000 \<or> int (iter s + n) = m \<Longrightarrow>
   fragment_loop c m s =
     \<lparr>iter = iter s + n, zval = (iterate c ^^ n) (zval s),
      iterCount = (if n = 0 then iterCount s else iter s + n - 1),
      executed = executed s + n\<rparr>"
proof (induction n arbitrary: s)
  case 0
  then show ?case
    by (subst fragment_loop.simps) auto
next
  case (Suc n)
  let ?s' = "\<lparr>iter = Suc (iter s), zval = iterate c (zval s), iterCount = iter s,
                executed = Suc (executed s)\<rparr>"
  have le: "dot (iterate c (zval s)) (iterate c (zval s)) \<le> 4"
    by (rule first_bound [OF Suc.prems(1)])
  have a: "\<forall>j<n. dot ((iterate c ^^ Suc j) (zval ?s')) ((iterate c ^^ Suc j) (zval ?s')) \<le> 4"
    using shifted_bound [OF Suc.prems(1)] by simp
  have b: "iter ?s' + n \<le> 1000" using Suc.prems(2) by simp
  have c: "int (iter ?s' + n) \<le> m" using Suc.prems(3) by simp
  have d: "iter ?s' + n = 1000 \<or> int (iter ?s' + n) = m" using Suc.prems(4) by simp
  have "fragment_loop c m s = fragment_loop c m ?s'"
    using le Suc.prems(2,3) by (subst fragment_loop.simps) (simp add: Let_def)
  also have "\<dots> = \<lparr>iter = iter ?s' + n, zval = (iterate c ^^ n) (zval ?s'),
      iterCount = (if n = 0 then iterCount ?s' else iter ?s' + n - 1),
      executed = executed ?s' + n\<rparr>"
    by (rule Suc.IH [OF a b c d])
  finally show ?case by (simp add: funpow_swap1)
qed

lemma bounded_for_funpow:
  "bounded_for c n \<Longrightarrow> \<forall>j<n. dot ((iterate c ^^ Suc j) (0, 0)) ((iterate c ^^ Suc j) (0, 0)) \<le> 4"
  by (simp add: bounded_for_def orbit_def)

lemma smooth_escaped:
  assumes "dot w w > 4"
  shows "smooth i w = Some (real i + 1 - ln (ln (dot w w) / 2 / ln 2) / ln 2)"
proof -
  have p: "0 < dot w w" using assms by simp
  have "0 < ln (dot w w)" using assms by (simp add: ln_gt_zero)
  then have "0 < ln (dot w w) / 2 / ln 2" by simp
  with p show ?thesis
    by (simp add: smooth_def glsl_log_def Let_def)
qed

lemma orbit_origin: "(iterate (0, 0) ^^ k) (0, 0) = (0, 0)"
  by (induction k) (simp_all add: iterate_def zSquared_def)

text \<open>
  With \<open>c = 0\<close> the point stays at \<open>0\<close>. The stand-alone shader then returns the cap.
  The inlined shader leaves its loop with \<open>iterCount\<close> one below the number of
  iterations run, so its guard \<open>iterCount < float(maxIter)\<close> holds and it takes the
  logarithm of \<open>dot(z, z) = 0\<close>.
\<close>

lemma fragment_loop_origin:
  assumes "1 \<le> m"
  shows "fragment_loop (0, 0) m frag_start =
      \<lparr>iter = min (nat m) 1000, zval = (0, 0), iterCount = min (nat m) 1000 - 1,
       executed = min (nat m) 1000\<rparr>"
proof -
  define n where "n = min (nat m) 1000"
  have n: "0 < n" "n \<le> 1000" "int n \<le> m" "n = 1000 \<or> int n = m"
    using assms by (auto simp: n_def min_def)
  have "fragment_loop (0, 0) m frag_start =
     \<lparr>iter = iter frag_start + n, zval = (iterate (0, 0) ^^ n) (zval frag_start),
      iterCount = (if n = 0 then iterCount frag_start else iter frag_start + n - 1),
      executed = executed frag_start + n\<rparr>"
    by (rule fragment_loop_bounded)
      (use n in \<open>simp_all add: frag_start_def orbit_origin dot_def iterate_def zSquared_def\<close>)
  then show ?thesis
    using n by (simp add: frag_start_def orbit_origin n_def)
qed

lemma fragment_value_origin:
  assumes "1 \<le> m"
  shows "fragment_value (0, 0) m = None"
proof -
  let ?s = "fragment_loop (0, 0) m frag_start"
  have ic: "iterCount ?s = min (nat m) 1000 - 1" and zv: "zval ?s = (0, 0)"
    by (simp_all add: fragment_loop_origin [OF assms])
  have "int (min (nat m) 1000 - 1) < m" using assms by linarith
  then have guard: "int (iterCount ?s) < m" by (simp only: ic)
  have "smooth (iterCount ?s) (zval ?s) = None"
    by (simp add: zv smooth_def glsl_log_def dot_def)
  with guard show ?thesis
    by (simp add: fragment_value_def Let_def)
qed

lemma main_value_bounded:
  assumes "0 \<le> m" and "bounded_for c (nat m)"
  shows "main_value c m = Some (real_of_int m)"
proof -
  have "main_loop c m loop_start =
     \<lparr>counter = counter loop_start + nat m, point = (iterate c ^^ nat m) (point loop_start),
      steps = steps loop_start + nat m\<rparr>"
    by (rule main_loop_bounded)
      (use assms bounded_for_funpow [OF assms(2)] in \<open>simp_all add: loop_start_def\<close>)
  then show ?thesis using assms
    by (simp add: main_value_def loop_start_def)
qed

lemma bounded_for_origin: "bounded_for (0, 0) n"
  using orbit_origin [of "Suc _"] by (simp add: bounded_for_def orbit_def dot_def del: funpow.simps)

lemma main_value_origin: "0 \<le> m \<Longrightarrow> main_value (0, 0) m = Some (real_of_int m)"
  by (rule main_value_bounded [OF _ bounded_for_origin])

text \<open>
  The pixel loop tests the point before it steps, so from a point within the radius
  it counts the steps up to and including the one that escapes.
\<close>

lemma calc_loop_escape:
  "x * x + y * y \<le> 4 \<Longrightarrow>
   \<forall>j<k. 0 < j \<longrightarrow> dot ((iterate c ^^ j) (x, y)) ((iterate c ^^ j) (x, y)) \<le> 4 \<Longrightarrow>
   dot ((iterate c ^^ k) (x, y)) ((iterate c ^^ k) (x, y)) > 4 \<Longrightarrow>
   int (i + k) \<le> m \<Longrightarrow>
   calc_loop (fst c) (snd c) m x y i = i + k"
proof (induction k arbitrary: x y i)
  case 0
  then show ?case by (simp add: dot_def)
next
  case (Suc k)
  let ?x = "x * x - y * y + fst c" and ?y = "2 * x * y + snd c"
  have it: "iterate c (x, y) = (?x, ?y)"
    by (simp add: iterate_def zSquared_def)
  have step: "calc_loop (fst c) (snd c) m x y i = calc_loop (fst c) (snd c) m ?x ?y (Suc i)"
    using Suc.prems(1,4) by (subst calc_loop.simps) simp
  show ?case
  proof (cases "k = 0")
    case True
    with Suc.prems(3) have "\<not> ?x * ?x + ?y * ?y \<le> 4"
      by (simp add: it dot_def)
    then have "calc_loop (fst c) (snd c) m ?x ?y (Suc i) = Suc i"
      by (subst calc_loop.simps) simp
    with step True show ?thesis by simp
  next
    case False
    have "dot ((iterate c ^^ 1) (x, y)) ((iterate c ^^ 1) (x, y)) \<le> 4"
      using Suc.prems(2) False by (intro Suc.prems(2) [rule_format]) auto
    then have a: "?x * ?x + ?y * ?y \<le> 4"
      by (simp add: it dot_def)
    have b: "\<forall>j<k. 0 < j \<longrightarrow> dot ((iterate c ^^ j) (?x, ?y)) ((iterate c ^^ j) (?x, ?y)) \<le> 4"
    proof (intro allI impI)
      fix j assume "j < k" "0 < j"
      then have "dot ((iterate c ^^ Suc j) (x, y)) ((iterate c ^^ Suc j) (x, y)) \<le> 4"
        using Suc.prems(2) by auto
      then show "dot ((iterate c ^^ j) (?x, ?y)) ((iterate c ^^ j) (?x, ?y)) \<le> 4"
        by (simp add: funpow_swap1 it)
    qed
    have c: "dot ((iterate c ^^ k) (?x, ?y)) ((iterate c ^^ k) (?x, ?y)) > 4"
      using Suc.prems(3) by (simp add: funpow_swap1 it)
    have d: "int (Suc i + k) \<le> m" using Suc.prems(4) by simp
    have "calc_loop (fst c) (snd c) m ?x ?y (Suc i) = Suc i + k"
      by (rule Suc.IH [OF a b c d])
    with step show ?thesis by simp
  qed
qed

lemma main_loop_mono:
  "m1 \<le> m2 \<Longrightarrow> int (counter (main_loop c m1 s)) < m1 \<Longrightarrow>
   main_loop c m2 s = main_loop c m1 s"
proof (induction c m1 s rule: main_loop.induct)
  case (1 c m1 s)
  show ?case
  proof (cases "int (counter s) < m1")
    case False
    then have "main_loop c m1 s = s" by (subst main_loop.simps) simp
    with "1.prems"(2) False show ?thesis by simp
  next
    case True
    note lt = True
    show ?thesis
    proof (cases "dot (iterate c (point s)) (iterate c (point s)) > 4")
      case True
      with lt "1.prems"(1) show ?thesis
        by (subst main_loop.simps, subst (2) main_loop.simps) (simp add: Let_def)
    next
      case False
      let ?s' = "\<lparr>counter = Suc (counter s), point = iterate c (point s), steps = Suc (steps s)\<rparr>"
      have e1: "main_loop c m1 s = main_loop c m1 ?s'"
        using lt False by (subst main_loop.simps) (simp add: Let_def)
      have e2: "main_loop c m2 s = main_loop c m2 ?s'"
        using lt False "1.prems"(1) by (subst main_loop.simps) (simp add: Let_def)
      have "main_loop c m2 ?s' = main_loop c m1 ?s'"
        using "1.IH" [OF lt refl] False "1.prems" e1 by simp
      with e1 e2 show ?thesis by simp
    qed
  qed
qed

text \<open>The stand-alone shader's loop ends below the cap only by its \<open>break\<close>.\<close>

lemma main_loop_below_cap_escaped:
  "int (counter (main_loop c m s)) < m \<Longrightarrow>
   dot (point (main_loop c m s)) (point (main_loop c m s)) > 4"
proof (induction c m s rule: main_loop.induct)
  case (1 c m s)
  show ?case
  proof (cases "int (counter s) < m")
    case False
    then have "main_loop c m s = s" by (subst main_loop.simps) simp
    with "1.prems" False show ?thesis by simp
  next
    case True
    note lt = True
    show ?thesis
    proof (cases "dot (iterate c (point s)) (iterate c (point s)) > 4")
      case True
      with lt show ?thesis
        by (subst main_loop.simps, subst main_loop.simps) (simp add: Let_def)
    next
      case False
      let ?s' = "\<lparr>counter = Suc (counter s), point = iterate c (point s), steps = Suc (steps s)\<rparr>"
      have e1: "main_loop c m s = main_loop c m ?s'"
        using lt False by (subst main_loop.simps) (simp add: Let_def)
      show ?thesis
        using "1.IH" [OF lt refl] False "1.prems" e1 by simp
    qed
  qed
qed

lemma calc_loop_mono:
  "m1 \<le> m2 \<Longrightarrow> int (calc_loop x0 y0 m1 x y i) < m1 \<Longrightarrow>
   calc_loop x0 y0 m2 x y i = calc_loop x0 y0 m1 x y i"
proof (induction x0 y0 m1 x y i rule: calc_loop.induct)
  case (1 x0 y0 m1 x y i)
  show ?case
  proof (cases "x * x + y * y \<le> 4 \<and> int i < m1")
    case True
    then have e1: "calc_loop x0 y0 m1 x y i =
        calc_loop x0 y0 m1 (x * x - y * y + x0) (2 * x * y + y0) (Suc i)"
      by (subst calc_loop.simps) simp
    have e2: "calc_loop x0 y0 m2 x y i =
        calc_loop x0 y0 m2 (x * x - y * y + x0) (2 * x * y + y0) (Suc i)"
      using True "1.prems"(1) by (subst calc_loop.simps) simp
    show ?thesis using "1.IH" [OF True] "1.prems" e1 e2 by simp
  next
    case False
    then have e1: "calc_loop x0 y0 m1 x y i = i" by (subst calc_loop.simps) auto
    with "1.prems"(2) False have "\<not> x * x + y * y \<le> 4" by auto
    then have "calc_loop x0 y0 m2 x y i = i" by (subst calc_loop.simps) auto
    with e1 show ?thesis by simp
  qed
qed

lemma fragment_loop_mono:
  "m1 \<le> m2 \<Longrightarrow> dot (zval s) (zval s) \<le> 4 \<Longrightarrow>
   dot (zval (fragment_loop c m1 s)) (zval (fragment_loop c m1 s)) > 4 \<Longrightarrow>
   fragment_loop c m2 s = fragment_loop c m1 s"
proof (induction c m1 s rule: fragment_loop.induct)
  case (1 c m1 s)
  show ?case
  proof (cases "iter s < 1000 \<and> int (iter s) < m1")
    case False
    then have "fragment_loop c m1 s = s" by (subst fragment_loop.simps) auto
    with "1.prems"(2,3) show ?thesis by simp
  next
    case True
    note lt = True
    show ?thesis
    proof (cases "dot (iterate c (zval s)) (iterate c (zval s)) > 4")
      case True
      with lt "1.prems"(1) show ?thesis
        by (subst fragment_loop.simps, subst (2) fragment_loop.simps) (simp add: Let_def)
    next
      case False
      let ?s' = "\<lparr>iter = Suc (iter s), zval = iterate c (zval s), iterCount = iter s,
                    executed = Suc (executed s)\<rparr>"
      have e1: "fragment_loop c m1 s = fragment_loop c m1 ?s'"
        using lt False by (subst fragment_loop.simps) (simp add: Let_def)
      have e2: "fragment_loop c m2 s = fragment_loop c m2 ?s'"
        using lt False "1.prems"(1) by (subst fragment_loop.simps) (simp add: Let_def)
      have "fragment_loop c m2 ?s' = fragment_loop c m1 ?s'"
        using "1.IH" [of "iterate c (zval s)"] lt False "1.prems" e1 by simp
      with e1 e2 show ?thesis by simp
    qed
  qed
qed

text \<open>An escape is only ever recorded below the cap.\<close>

lemma fragment_loop_escaped_below_cap:
  "dot (zval s) (zval s) \<le> 4 \<Longrightarrow>
   dot (zval (fragment_loop c m s)) (zval (fragment_loop c m s)) > 4 \<Longrightarrow>
   int (iterCount (fragment_loop c m s)) < m"
proof (induction c m s rule: fragment_loop.induct)
  case (1 c m s)
  show ?case
  proof (cases "iter s < 1000 \<and> int (iter s) < m")
    case False
    then have "fragment_loop c m s = s" by (subst fragment_loop.simps) auto
    with "1.prems" show ?thesis by simp
  next
    case True
    note lt = True
    show ?thesis
    proof (cases "dot (iterate c (zval s)) (iterate c (zval s)) > 4")
      case True
      with lt show ?thesis
        by (subst fragment_loop.simps) (simp add: Let_def)
    next
      case False
      let ?s' = "\<lparr>iter = Suc (iter s), zval = iterate c (zval s), iterCount = iter s,
                    executed = Suc (executed s)\<rparr>"
      have e1: "fragment_loop c m s = fragment_loop c m ?s'"
        using lt False by (subst fragment_loop.simps) (simp add: Let_def)
      show ?thesis
        using "1.IH" [of "iterate c (zval s)"] lt False "1.prems" e1 by simp
    qed
  qed
qed

lemma fragment_loop_executed:
  "executed (fragment_loop c m s) \<le> executed s + (1000 - iter s)"
proof (induction c m s rule: fragment_loop.induct)
  case (1 c m s)
  show ?case
  proof (cases "iter s < 1000 \<and> int (iter s) < m")
    case False
    then have "fragment_loop c m s = s" by (subst fragment_loop.simps) auto
    then show ?thesis by simp
  next
    case True
    note lt = True
    show ?thesis
    proof (cases "dot (iterate c (zval s)) (iterate c (zval s)) > 4")
      case True
      with lt show ?thesis
        by (subst fragment_loop.simps) (auto simp add: Let_def)
    next
      case False
      let ?s' = "\<lparr>iter = Suc (iter s), zval = iterate c (zval s), iterCount = iter s,
                    executed = Suc (executed s)\<rparr>"
      have e1: "fragment_loop c m s = fragment_loop c m ?s'"
        using lt False by (subst fragment_loop.simps) (simp add: Let_def)
      have "executed (fragment_loop c m ?s') \<le> executed ?s' + (1000 - iter ?s')"
        using "1.IH" [of "iterate c (zval s)"] lt False by simp
      then have "executed (fragment_loop c m ?s') \<le> Suc (executed s) + (1000 - Suc (iter s))"
        by simp
      also have "\<dots> = executed s + (1000 - iter s)"
        using lt by linarith
      finally show ?thesis by (simp only: e1)
    qed
  qed
qed

lemma fragment_loop_iter:
  "iter s \<le> 1000 \<Longrightarrow> iter (fragment_loop c m s) \<le> 1000"
proof (induction c m s rule: fragment_loop.induct)
  case (1 c m s)
  show ?case
  proof (cases "iter s < 1000 \<and> int (iter s) < m")
    case False
    then have "fragment_loop c m s = s" by (subst fragment_loop.simps) auto
    with "1.prems" show ?thesis by simp
  next
    case True
    note lt = True
    show ?thesis
    proof (cases "dot (iterate c (zval s)) (iterate c (zval s)) > 4")
      case True
      with lt show ?thesis
        by (subst fragment_loop.simps) (auto simp add: Let_def)
    next
      case False
      let ?s' = "\<lparr>iter = Suc (iter s), zval = iterate c (zval s), iterCount = iter s,
                    executed = Suc (executed s)\<rparr>"
      have e1: "fragment_loop c m s = fragment_loop c m ?s'"
        using lt False by (subst fragment_loop.simps) (simp add: Let_def)
      show ?thesis
        using "1.IH" [of "iterate c (zval s)"] lt False e1 by simp
    qed
  qed
qed

lemma fragment_loop_executed_cap:
  "int (iter s) \<le> m \<Longrightarrow> int (executed (fragment_loop c m s)) \<le> int (executed s) + (m - int (iter s))"
proof (induction c m s rule: fragment_loop.induct)
  case (1 c m s)
  show ?case
  proof (cases "iter s < 1000 \<and> int (iter s) < m")
    case False
    then have "fragment_loop c m s = s" by (subst fragment_loop.simps) auto
    with "1.prems" show ?thesis by simp
  next
    case True
    note lt = True
    show ?thesis
    proof (cases "dot (iterate c (zval s)) (iterate c (zval s)) > 4")
      case True
      with lt show ?thesis
        by (subst fragment_loop.simps) (auto simp add: Let_def)
    next
      case False
      let ?s' = "\<lparr>iter = Suc (iter s), zval = iterate c (zval s), iterCount = iter s,
                    executed = Suc (executed s)\<rparr>"
      have e1: "fragment_loop c m s = fragment_loop c m ?s'"
        using lt False by (subst fragment_loop.simps) (simp add: Let_def)
      have "int (executed (fragment_loop c m ?s')) \<le> int (executed ?s') + (m - int (iter ?s'))"
        using "1.IH" [of "iterate c (zval s)"] lt False by simp
      then show ?thesis by (simp add: e1)
    qed
  qed
qed

text \<open>
  The inlined shader on a point that stays bounded for as many iterations as it runs
  (the cap, or 1000 if the cap is larger): \<open>iterCount\<close> ends one below that number, so
  the guard of the smoothing block holds and the block runs on the last, bounded point.
\<close>

lemma fragment_value_bounded:
  assumes "1 \<le> m" and "bounded_for c (min (nat m) 1000)"
  shows "fragment_value c m = smooth (min (nat m) 1000 - 1) (orbit c (min (nat m) 1000))"
proof -
  define n where "n = min (nat m) 1000"
  have n: "0 < n" "n \<le> 1000" "int n \<le> m" "n = 1000 \<or> int n = m"
    using assms(1) by (auto simp: n_def min_def)
  have b: "\<forall>j<n. dot ((iterate c ^^ Suc j) (0, 0)) ((iterate c ^^ Suc j) (0, 0)) \<le> 4"
    using assms(2) unfolding n_def by (rule bounded_for_funpow)
  have "fragment_loop c m frag_start =
     \<lparr>iter = iter frag_start + n, zval = (iterate c ^^ n) (zval frag_start),
      iterCount = (if n = 0 then iterCount frag_start else iter frag_start + n - 1),
      executed = executed frag_start + n\<rparr>"
    by (rule fragment_loop_bounded) (use n b in \<open>simp_all add: frag_start_def\<close>)
  then have s: "fragment_loop c m frag_start =
      \<lparr>iter = n, zval = orbit c n, iterCount = n - 1, executed = n\<rparr>"
    using n by (simp add: frag_start_def orbit_def)
  have "int (n - 1) < m" using n by linarith
  then have "fragment_value c m = smooth (n - 1) (orbit c n)"
    by (simp add: fragment_value_def Let_def s)
  then show ?thesis by (simp add: n_def)
qed

text \<open>
  The orbit of \<open>c = i\<close> is \<open>0, i, -1 + i, -i, -1 + i, -i, \<dots>\<close>: it never leaves the
  radius.
\<close>

lemma iterate_i_steps:
  "iterate (0, 1) (0, 0) = (0, 1)"
  "iterate (0, 1) (0, 1) = (- 1, 1)"
  "iterate (0, 1) (- 1, 1) = (0, - 1)"
  "iterate (0, 1) (0, - 1) = (- 1, 1)"
  by (simp_all add: iterate_def zSquared_def)

lemma orbit_i_even: "orbit (0, 1) (Suc (Suc (k + k))) = (- 1, 1)"
proof (induction k)
  case 0
  show ?case by (simp add: orbit_def iterate_i_steps)
next
  case (Suc k)
  have "orbit (0, 1) (Suc (Suc (Suc k + Suc k))) =
      iterate (0, 1) (iterate (0, 1) (orbit (0, 1) (Suc (Suc (k + k)))))"
    by (simp add: orbit_def)
  then show ?case
    by (simp only: Suc.IH iterate_i_steps)
qed

lemma orbit_i_odd: "orbit (0, 1) (Suc (Suc (Suc (k + k)))) = (0, - 1)"
proof -
  have "orbit (0, 1) (Suc (Suc (Suc (k + k)))) = iterate (0, 1) (orbit (0, 1) (Suc (Suc (k + k))))"
    by (simp add: orbit_def)
  then show ?thesis
    by (simp only: orbit_i_even iterate_i_steps)
qed

lemma bounded_for_i: "bounded_for (0, 1) n"
  unfolding bounded_for_def
proof
  fix j assume "j \<in> {..<n}"
  show "dot (orbit (0, 1) (Suc j)) (orbit (0, 1) (Suc j)) \<le> 4"
  proof (cases "j = 0")
    case True
    then show ?thesis by (simp add: orbit_def iterate_i_steps dot_def)
  next
    case False
    then obtain i where i: "j = Suc i" by (cases j) auto
    show ?thesis
    proof (cases "even i")
      case True
      then obtain k where "i = k + k" by (auto elim: evenE simp: mult_2)
      with i have "orbit (0, 1) (Suc j) = (- 1, 1)" by (simp only: orbit_i_even)
      then show ?thesis by (simp add: dot_def)
    next
      case False
      then obtain k where "i = Suc (k + k)" by (auto elim: oddE simp: mult_2)
      with i have "orbit (0, 1) (Suc j) = (0, - 1)" by (simp only: orbit_i_odd)
      then show ?thesis by (simp add: dot_def)
    qed
  qed
qed

section \<open>The escape-time claims\<close>

text \<open>
  C1. A point that does not escape within the cap gets exactly the cap, and only
  escaped points are smoothed. The stand-alone shader does so
  (\<open>main_value_bounded\<close>). The shader inlined in the renderer does not. At
  \<open>c = 0 + 0i\<close> with the cap at 100, where \<open>z\<close> stays at \<open>0\<close>, its loop runs all 100
  iterations and ends with \<open>iterCount = 99\<close>; the guard \<open>iterCount < float(maxIter)\<close>
  then holds for this point that never escaped, and the smoothing block runs on it and
  takes \<open>log(0)\<close>. At \<open>c = i\<close>, which never escapes either, the loop ends at
  \<open>z = -1 + i\<close> and the smoothing block turns 99 into 101. The stand-alone shader
  returns 100 for both.
\<close>

theorem inlined_shader_smooths_unescaped_origin:
  "iterCount (fragment_loop (0, 0) 100 frag_start) = 99 \<and>
   zval (fragment_loop (0, 0) 100 frag_start) = (0, 0) \<and>
   executed (fragment_loop (0, 0) 100 frag_start) = 100 \<and>
   fragment_value (0, 0) 100 = None \<and>
   main_value (0, 0) 100 = Some 100 \<and>
   fragment_value (0, 1) 100 = Some 101 \<and>
   main_value (0, 1) 100 = Some 100"
proof -
  have "fragment_loop (0, 0) 100 frag_start =
      \<lparr>iter = 100, zval = (0, 0), iterCount = 99, executed = 100\<rparr>"
    using fragment_loop_origin [of 100] by simp
  moreover have "fragment_value (0, 0) 100 = None"
    by (rule fragment_value_origin) simp
  moreover have "main_value (0, 0) 100 = Some 100"
    using main_value_origin [of 100] by simp
  moreover have "fragment_value (0, 1) 100 = Some 101"
  proof -
    have "orbit (0, 1) (Suc (Suc (49 + 49))) = (- 1, 1)"
      by (rule orbit_i_even)
    then have o: "orbit (0, 1) 100 = (- 1, 1)"
      by simp
    have "fragment_value (0, 1) 100 =
        smooth (min (nat 100) 1000 - 1) (orbit (0, 1) (min (nat 100) 1000))"
      by (rule fragment_value_bounded) (simp_all add: bounded_for_i)
    then have "fragment_value (0, 1) 100 = smooth 99 (- 1, 1)"
      by (simp add: o)
    moreover have "ln (1 / 2 :: real) = - ln 2"
      by (simp add: ln_div)
    ultimately show ?thesis
      by (simp add: smooth_def glsl_log_def dot_def Let_def)
  qed
  moreover have "main_value (0, 1) 100 = Some 100"
    using main_value_bounded [of 100 "(0, 1)"] by (simp add: bounded_for_i)
  ultimately show ?thesis
    by simp
qed

text \<open>
  C2, as stated, fails on the CPU pixel loop, which has no smoothing at all:
  \<open>c = 3 + 0i\<close> escapes at iteration 0 (\<open>z = 3\<close>, \<open>|z|\<^sup>2 = 9\<close>), where the smoothed
  value is \<open>0 + 1 - nu\<close> with \<open>nu = ln(ln 9 / 2 / ln 2) / ln 2\<close>, not zero; the pixel loop
  returns the integer 1.
\<close>

theorem pixel_loop_is_not_smoothed:
  "escapes_at (3, 0) 0 \<and> (0::int) < 10 \<and>
   smooth 0 (orbit (3, 0) (Suc 0)) = Some (0 + 1 - ln (ln 9 / 2 / ln 2) / ln 2) \<and>
   calculateMandelbrot 10 3 0 = 1 \<and>
   Some (real (calculateMandelbrot 10 3 0)) \<noteq> smooth 0 (orbit (3, 0) (Suc 0))"
proof -
  have o: "orbit (3, 0) (Suc 0) = (3, 0)"
    by (simp add: orbit_def iterate_def zSquared_def)
  have e: "escapes_at (3, 0) 0"
    by (simp add: escapes_at_def bounded_for_def o dot_def)
  have s: "smooth 0 (orbit (3, 0) (Suc 0)) = Some (0 + 1 - ln (ln 9 / 2 / ln 2) / ln 2)"
    using smooth_escaped [of "(3, 0)" 0] by (simp add: o dot_def)
  have c: "calculateMandelbrot 10 3 0 = 1"
    by (simp add: calculateMandelbrot_def calc_loop.simps)
  have "ln (9::real) \<noteq> ln 4" by simp
  moreover have "ln (4::real) = 2 * ln 2"
    using ln_realpow [of 2 2] by simp
  ultimately have "ln (9::real) / 2 / ln 2 \<noteq> 1" by simp
  moreover have "0 < ln (9::real) / 2 / ln 2" by (simp add: ln_gt_zero)
  ultimately have "ln (ln (9::real) / 2 / ln 2) \<noteq> 0" by simp
  then have "ln (ln (9::real) / 2 / ln 2) / ln 2 \<noteq> 0" by simp
  with e s c show ?thesis by simp
qed

text \<open>
  C2, amended. On both shaders, a point \<open>c\<close> that escapes at iteration \<open>n\<close> below
  the cap gets \<open>n + 1 - nu\<close>, with \<open>nu = ln(log_zn / ln 2) / ln 2\<close> and
  \<open>log_zn = ln(|z|\<^sup>2) / 2\<close> taken at the escaping point \<open>z\<close>; on the inlined shader this
  needs \<open>n < 1000\<close>, the bound of its loop. The CPU pixel loop returns the unsmoothed
  count \<open>n + 1\<close>.
\<close>

theorem shaders_smooth_on_escape:
  assumes "escapes_at c n" and "int n < maxIter"
  shows "main_value c maxIter =
           Some (real n + 1 -
             ln (ln (dot (orbit c (Suc n)) (orbit c (Suc n))) / 2 / ln 2) / ln 2) \<and>
         (n < 1000 \<longrightarrow>
          fragment_value c maxIter =
           Some (real n + 1 -
             ln (ln (dot (orbit c (Suc n)) (orbit c (Suc n))) / 2 / ln 2) / ln 2)) \<and>
         calculateMandelbrot maxIter (fst c) (snd c) = n + 1"
proof -
  have "bounded_for c n"
    using assms(1) by (simp add: escapes_at_def)
  then have b: "\<forall>j<n. dot ((iterate c ^^ Suc j) (0, 0)) ((iterate c ^^ Suc j) (0, 0)) \<le> 4"
    by (rule bounded_for_funpow)
  have e: "dot ((iterate c ^^ Suc n) (0, 0)) ((iterate c ^^ Suc n) (0, 0)) > 4"
    using assms(1) by (simp add: escapes_at_def orbit_def)
  have e': "dot (orbit c (Suc n)) (orbit c (Suc n)) > 4"
    using assms(1) by (simp add: escapes_at_def)
  have "main_loop c maxIter loop_start =
      \<lparr>counter = counter loop_start + n, point = (iterate c ^^ Suc n) (point loop_start),
       steps = steps loop_start + Suc n\<rparr>"
    by (rule main_loop_escape) (use b e assms(2) in \<open>simp_all add: loop_start_def\<close>)
  then have m: "main_loop c maxIter loop_start =
      \<lparr>counter = n, point = orbit c (Suc n), steps = Suc n\<rparr>"
    by (simp add: loop_start_def orbit_def)
  have A: "main_value c maxIter =
           Some (real n + 1 -
             ln (ln (dot (orbit c (Suc n)) (orbit c (Suc n))) / 2 / ln 2) / ln 2)"
    using assms(2) by (simp add: main_value_def m smooth_escaped [OF e'])
  have B: "fragment_value c maxIter =
           Some (real n + 1 -
             ln (ln (dot (orbit c (Suc n)) (orbit c (Suc n))) / 2 / ln 2) / ln 2)"
    if lt: "n < 1000"
  proof -
    have "fragment_loop c maxIter frag_start =
        \<lparr>iter = iter frag_start + n, zval = (iterate c ^^ Suc n) (zval frag_start),
         iterCount = iter frag_start + n, executed = executed frag_start + Suc n\<rparr>"
      by (rule fragment_loop_escape) (use b e assms(2) lt in \<open>simp_all add: frag_start_def\<close>)
    then have f: "fragment_loop c maxIter frag_start =
        \<lparr>iter = n, zval = orbit c (Suc n), iterCount = n, executed = Suc n\<rparr>"
      by (simp add: frag_start_def orbit_def)
    show ?thesis
      using assms(2) by (simp add: fragment_value_def f smooth_escaped [OF e'])
  qed
  have C: "calculateMandelbrot maxIter (fst c) (snd c) = n + 1"
  proof -
    have b': "\<forall>j<Suc n. 0 < j \<longrightarrow>
        dot ((iterate c ^^ j) (0, 0)) ((iterate c ^^ j) (0, 0)) \<le> 4"
    proof (intro allI impI)
      fix j assume "j < Suc n" "0 < j"
      then obtain j' where "j = Suc j'" "j' < n"
        by (cases j) auto
      with b show "dot ((iterate c ^^ j) (0, 0)) ((iterate c ^^ j) (0, 0)) \<le> 4"
        by blast
    qed
    have "calc_loop (fst c) (snd c) maxIter 0 0 0 = 0 + Suc n"
      by (rule calc_loop_escape [OF _ b' e]) (use assms(2) in simp_all)
    then show ?thesis
      by (simp add: calculateMandelbrot_def)
  qed
  from A B C show ?thesis by blast
qed

theorem shaders_smooth_on_escape_witness:
  "escapes_at (3, 0) 0 \<and> int 0 < 10 \<and> (0::nat) < 1000 \<and>
   main_value (3, 0) 10 = Some (0 + 1 - ln (ln 9 / 2 / ln 2) / ln 2) \<and>
   fragment_value (3, 0) 10 = Some (0 + 1 - ln (ln 9 / 2 / ln 2) / ln 2) \<and>
   calculateMandelbrot 10 3 0 = 1"
proof -
  have o: "orbit (3, 0) (Suc 0) = (3, 0)"
    by (simp add: orbit_def iterate_def zSquared_def)
  have e: "escapes_at (3, 0) 0"
    by (simp add: escapes_at_def bounded_for_def o dot_def)
  have c: "int 0 < 10" by simp
  show ?thesis
    using shaders_smooth_on_escape [OF e c] e by (simp add: o dot_def)
qed

text \<open>
  C7. Escape monotonicity: for caps \<open>m1 \<le> m2\<close>, if the evaluator under \<open>m1\<close> detects
  an escape at an iteration below \<open>m1\<close>, then under \<open>m2\<close> it stops at the same
  iteration with the same point and returns the same value. For the stand-alone shader
  and the pixel loop an escape was detected exactly when the final count is below the
  cap (\<open>main_loop_below_cap_escaped\<close>); the inlined shader is covered as well, where
  the escape shows in the final point.
\<close>

theorem escape_is_independent_of_larger_cap:
  assumes "m1 \<le> m2"
  shows "(int (counter (main_loop c m1 loop_start)) < m1 \<longrightarrow>
            main_loop c m2 loop_start = main_loop c m1 loop_start \<and>
            main_value c m2 = main_value c m1) \<and>
         (int (calculateMandelbrot m1 x0 y0) < m1 \<longrightarrow>
            calculateMandelbrot m2 x0 y0 = calculateMandelbrot m1 x0 y0) \<and>
         (dot (zval (fragment_loop c m1 frag_start)) (zval (fragment_loop c m1 frag_start)) > 4 \<longrightarrow>
            fragment_loop c m2 frag_start = fragment_loop c m1 frag_start \<and>
            fragment_value c m2 = fragment_value c m1)"
proof (intro conjI impI)
  assume lt: "int (counter (main_loop c m1 loop_start)) < m1"
  show eq: "main_loop c m2 loop_start = main_loop c m1 loop_start"
    by (rule main_loop_mono [OF assms lt])
  from lt assms have "int (counter (main_loop c m1 loop_start)) < m2" by simp
  with lt show "main_value c m2 = main_value c m1"
    by (simp add: main_value_def eq)
next
  assume "int (calculateMandelbrot m1 x0 y0) < m1"
  then show "calculateMandelbrot m2 x0 y0 = calculateMandelbrot m1 x0 y0"
    unfolding calculateMandelbrot_def by (rule calc_loop_mono [OF assms])
next
  assume esc: "dot (zval (fragment_loop c m1 frag_start)) (zval (fragment_loop c m1 frag_start)) > 4"
  have start: "dot (zval frag_start) (zval frag_start) \<le> 4"
    by (simp add: frag_start_def dot_def)
  show eq: "fragment_loop c m2 frag_start = fragment_loop c m1 frag_start"
    by (rule fragment_loop_mono [OF assms start esc])
  have lt: "int (iterCount (fragment_loop c m1 frag_start)) < m1"
    by (rule fragment_loop_escaped_below_cap [OF start esc])
  with assms have "int (iterCount (fragment_loop c m1 frag_start)) < m2" by simp
  with lt show "fragment_value c m2 = fragment_value c m1"
    by (simp add: fragment_value_def eq)
qed

theorem escape_is_independent_of_larger_cap_witness:
  "(5::int) \<le> 10 \<and>
   int (counter (main_loop (3, 0) 5 loop_start)) < 5 \<and>
   main_loop (3, 0) 10 loop_start = main_loop (3, 0) 5 loop_start \<and>
   main_value (3, 0) 10 = main_value (3, 0) 5 \<and>
   int (calculateMandelbrot 5 3 0) < 5 \<and>
   calculateMandelbrot 10 3 0 = calculateMandelbrot 5 3 0 \<and>
   dot (zval (fragment_loop (3, 0) 5 frag_start)) (zval (fragment_loop (3, 0) 5 frag_start)) > 4 \<and>
   fragment_loop (3, 0) 10 frag_start = fragment_loop (3, 0) 5 frag_start \<and>
   fragment_value (3, 0) 10 = fragment_value (3, 0) 5"
proof -
  have le: "(5::int) \<le> 10" by simp
  have a: "int (counter (main_loop (3, 0) 5 loop_start)) < 5"
    by (simp add: main_loop.simps loop_start_def iterate_def zSquared_def dot_def)
  have b: "int (calculateMandelbrot 5 3 0) < 5"
    by (simp add: calculateMandelbrot_def calc_loop.simps)
  have c: "dot (zval (fragment_loop (3, 0) 5 frag_start)) (zval (fragment_loop (3, 0) 5 frag_start)) > 4"
    by (simp add: fragment_loop.simps frag_start_def iterate_def zSquared_def dot_def)
  show ?thesis
    using escape_is_independent_of_larger_cap [OF le, of "(3, 0)" 3 0] a b c by simp
qed

text \<open>
  C8. With the cap at 0 every evaluator returns 0 without running the recurrence:
  the pixel loop returns the count 0 of its loop passes, and both shaders leave their
  loops in the start state, with no execution of \<open>z = zSquared + c\<close>, skip the smoothing
  block and hand on the defined value 0.
\<close>

theorem zero_cap_returns_zero:
  "calculateMandelbrot 0 x0 y0 = 0 \<and>
   main_loop c 0 loop_start = loop_start \<and> steps (main_loop c 0 loop_start) = 0 \<and>
   main_value c 0 = Some 0 \<and>
   fragment_loop c 0 frag_start = frag_start \<and> executed (fragment_loop c 0 frag_start) = 0 \<and>
   fragment_value c 0 = Some 0"
proof -
  have a: "calculateMandelbrot 0 x0 y0 = 0"
    by (simp add: calculateMandelbrot_def calc_loop.simps)
  have b: "main_loop c 0 loop_start = loop_start"
    by (subst main_loop.simps) (simp add: loop_start_def)
  have c: "fragment_loop c 0 frag_start = frag_start"
    by (subst fragment_loop.simps) (simp add: frag_start_def)
  have d: "main_value c 0 = Some 0"
    by (simp add: main_value_def b) (simp add: loop_start_def)
  have e: "fragment_value c 0 = Some 0"
    by (simp add: fragment_value_def c) (simp add: frag_start_def)
  from a b c d e show ?thesis
    by (simp add: loop_start_def frag_start_def)
qed

text \<open>
  C10. The loop of the shader inlined in the renderer is bounded by 1000: the function
  that models it is total, its counter never passes 1000, and for every point and every
  \<open>u_max_iterations\<close>, also above 1000, it executes \<open>z = zSquared + c\<close> at most 1000
  times. The first revision of the renderer has the same loop under other names.
\<close>

theorem inlined_loop_at_most_1000:
  "executed (fragment_loop c u_max_iterations frag_start) \<le> 1000 \<and>
   iter (fragment_loop c u_max_iterations frag_start) \<le> 1000"
proof
  have "executed (fragment_loop c u_max_iterations frag_start)
          \<le> executed frag_start + (1000 - iter frag_start)"
    by (rule fragment_loop_executed)
  then show "executed (fragment_loop c u_max_iterations frag_start) \<le> 1000"
    by (simp add: frag_start_def)
  show "iter (fragment_loop c u_max_iterations frag_start) \<le> 1000"
    by (rule fragment_loop_iter) (simp add: frag_start_def)
qed

text \<open>The bound is reached: at \<open>c = 0\<close> a cap above 1000 runs exactly 1000 iterations.\<close>

lemma inlined_loop_reaches_1000:
  "1000 \<le> m \<Longrightarrow> executed (fragment_loop (0, 0) m frag_start) = 1000"
  using fragment_loop_origin [of m] by simp

section \<open>The renderer's state\<close>

lemma calculateResolutionFactor_eq:
  "calculateResolutionFactor r = (if zoom r \<le> 100 then 1 else min (zoom r / 100) 2)"
  by (simp add: calculateResolutionFactor_def baseResolutionFactor_def maxResolutionFactor_def
      zoomThreshold_def Let_def)

lemma resize_viewport [simp]:
  "viewportX (resizeCanvasToDisplaySize r) = viewportX r"
  "viewportY (resizeCanvasToDisplaySize r) = viewportY r"
  "zoom (resizeCanvasToDisplaySize r) = zoom r"
  "clientWidth (resizeCanvasToDisplaySize r) = clientWidth r"
  "clientHeight (resizeCanvasToDisplaySize r) = clientHeight r"
  "maxIterations (resizeCanvasToDisplaySize r) = maxIterations r"
  by (simp_all add: resizeCanvasToDisplaySize_def Let_def)

lemma resize_canvas:
  "canvas_width (resizeCanvasToDisplaySize r) =
     \<lfloor>real_of_int (clientWidth r) * calculateResolutionFactor r\<rfloor>"
  "canvas_height (resizeCanvasToDisplaySize r) =
     \<lfloor>real_of_int (clientHeight r) * calculateResolutionFactor r\<rfloor>"
  by (auto simp add: resizeCanvasToDisplaySize_def Let_def)

lemma new_renderer_800_600:
  "new_renderer maxIter 800 600 =
     \<lparr>maxIterations = maxIter, viewportX = - 1 / 2, viewportY = 0, zoom = 1,
      canvas_width = 800, canvas_height = 600, clientWidth = 800, clientHeight = 600\<rparr>"
  by (simp add: new_renderer_def render_def resizeCanvasToDisplaySize_def
      calculateResolutionFactor_eq Let_def)

text \<open>
  C9. The resolution factor depends on the zoom alone: 1 up to zoom 100, then
  \<open>min (zoom / 100) 2\<close>; resizing sets the raster to the floor of the display size times
  the factor, and that is the raster \<open>render()\<close> leaves.
\<close>

theorem resolution_factor_of_zoom:
  "calculateResolutionFactor r = (if zoom r \<le> 100 then 1 else min (zoom r / 100) 2) \<and>
   canvas_width (resizeCanvasToDisplaySize r) =
     \<lfloor>real_of_int (clientWidth r) * calculateResolutionFactor r\<rfloor> \<and>
   canvas_height (resizeCanvasToDisplaySize r) =
     \<lfloor>real_of_int (clientHeight r) * calculateResolutionFactor r\<rfloor> \<and>
   canvas_width (render r) = \<lfloor>real_of_int (clientWidth r) * calculateResolutionFactor r\<rfloor> \<and>
   canvas_height (render r) = \<lfloor>real_of_int (clientHeight r) * calculateResolutionFactor r\<rfloor>"
  by (simp only: calculateResolutionFactor_eq resize_canvas render_def simp_thms)

theorem resolution_factor_of_zoom_witness:
  "calculateResolutionFactor (updateZoom 50 (new_renderer 100 800 600)) = 1 \<and>
   calculateResolutionFactor (updateZoom 150 (new_renderer 100 800 600)) = 3 / 2 \<and>
   calculateResolutionFactor (updateZoom 400 (new_renderer 100 800 600)) = 2 \<and>
   canvas_width (updateZoom 150 (new_renderer 100 800 600)) = 1200 \<and>
   canvas_height (updateZoom 150 (new_renderer 100 800 600)) = 900"
proof -
  let ?r = "new_renderer 100 800 600"
  have z: "zoom (updateZoom 50 ?r) = 50" "zoom (updateZoom 150 ?r) = 150"
    "zoom (updateZoom 400 ?r) = 400"
    by (simp_all add: updateZoom_def render_def)
  have a: "calculateResolutionFactor (updateZoom 50 ?r) = 1"
    using resolution_factor_of_zoom [of "updateZoom 50 ?r"] by (simp add: z)
  have b: "calculateResolutionFactor (updateZoom 150 ?r) = 3 / 2"
    using resolution_factor_of_zoom [of "updateZoom 150 ?r"] by (simp add: z)
  have c: "calculateResolutionFactor (updateZoom 400 ?r) = 2"
    using resolution_factor_of_zoom [of "updateZoom 400 ?r"] by (simp add: z)
  let ?q = "?r\<lparr>zoom := 150\<rparr>"
  have q: "zoom ?q = 150" "clientWidth ?q = 800" "clientHeight ?q = 600"
    by (simp_all add: new_renderer_800_600)
  have f: "calculateResolutionFactor ?q = 3 / 2"
    using resolution_factor_of_zoom [of ?q] by (simp add: q)
  have d: "canvas_width (render ?q) = 1200" "canvas_height (render ?q) = 900"
    using resolution_factor_of_zoom [of ?q] by (simp_all add: q f)
  from a b c d show ?thesis
    by (simp add: updateZoom_def)
qed

section \<open>Panning\<close>

text \<open>
  What \<open>pan\<close> does: it takes the visible height to be \<open>3.0 / zoom\<close>, so the centre
  moves by one and a half times the pixel delta's share of the rectangle the shader
  draws, whose height is \<open>2.0 / zoom\<close>.
\<close>

lemma pan_effect:
  "viewportX (pan deltaX deltaY r) =
     viewportX r -
       deltaX * (3 / zoom r * (real_of_int (canvas_width r) / real_of_int (canvas_height r)))
         / real_of_int (canvas_width r)"
  "viewportY (pan deltaX deltaY r) =
     viewportY r + deltaY * (3 / zoom r) / real_of_int (canvas_height r)"
  "zoom (pan deltaX deltaY r) = zoom r"
  by (simp_all add: pan_def render_def Let_def)

text \<open>
  C5. The claim converts the pixel delta with the viewport's visible rectangle,
  \<open>rangeY = 2.0 / zoom\<close> and \<open>rangeX = rangeY * (w / h)\<close>. On a fresh 800 by 600 view
  (zoom 1, centre \<open>(-0.5, 0)\<close>), \<open>pan(80, 60)\<close> should move the centre to
  \<open>(-0.5 - 80 * (8/3) / 800, 0 + 60 * 2 / 600) = (-23/30, 1/5)\<close>; the code moves it to
  \<open>(-9/10, 3/10)\<close>.
\<close>

theorem pan_uses_height_three:
  "viewportX (pan 80 60 (new_renderer 100 800 600)) = - 9 / 10 \<and>
   viewportY (pan 80 60 (new_renderer 100 800 600)) = 3 / 10 \<and>
   viewportX (new_renderer 100 800 600) - 80 * (2 / zoom (new_renderer 100 800 600) * (800 / 600)) / 800
     = - 23 / 30 \<and>
   viewportY (new_renderer 100 800 600) + 60 * (2 / zoom (new_renderer 100 800 600)) / 600
     = 1 / 5"
  by (simp add: pan_effect new_renderer_800_600)

section \<open>Screen positions and the complex plane\<close>

text \<open>What the three conversions compute, for a canvas of positive size.\<close>

lemma drawn_at_eq:
  assumes "0 < canvas_width r" and "0 < canvas_height r"
  shows "drawn_at r px py =
     (viewportX r + (px / real_of_int (canvas_width r) - 1 / 2) *
        (2 / zoom r * (real_of_int (canvas_width r) / real_of_int (canvas_height r))),
      viewportY r + (1 / 2 - py / real_of_int (canvas_height r)) * (2 / zoom r))"
proof -
  have h: "real_of_int (canvas_height r) \<noteq> 0"
    using assms(2) by simp
  have flip: "(real_of_int (canvas_height r) - py) / real_of_int (canvas_height r)
      = 1 - py / real_of_int (canvas_height r)"
    using h by (simp add: diff_divide_distrib)
  show ?thesis
    unfolding drawn_at_def fragment_c_def fragment_at_def Let_def
    by (simp only: fst_conv snd_conv flip) simp
qed

text \<open>The shader draws what the specification's mapper computes.\<close>

lemma drawn_at_is_spec:
  assumes "0 < canvas_width r" and "0 < canvas_height r"
  shows "drawn_at r px py =
     spec_screenToComplex (getViewport r) (real_of_int (canvas_width r))
       (real_of_int (canvas_height r)) px py"
  using assms
  by (simp add: drawn_at_eq spec_screenToComplex_def getViewport_def Let_def)

text \<open>The tooltip's conversion does not flip the vertical axis.\<close>

lemma span_from_min:
  fixes c R n :: real
  shows "(c - R / 2) + n * ((c + R / 2) - (c - R / 2)) = c + (n - 1 / 2) * R"
  by (simp add: algebra_simps)

lemma screenToComplex_eq:
  "screenToComplex r px py =
     (viewportX r + (px / real_of_int (canvas_width r) - 1 / 2) *
        (2 / zoom r * (real_of_int (canvas_width r) / real_of_int (canvas_height r))),
      viewportY r + (py / real_of_int (canvas_height r) - 1 / 2) * (2 / zoom r))"
  unfolding screenToComplex_def getViewport_def Let_def
  by (simp only: span_from_min viewport.simps) simp

text \<open>
  C6. The claim asks for \<open>imag = centerY + (0.5 - py/height) * rangeY\<close> wherever a
  screen position is converted. On a fresh 800 by 600 view the top middle pixel
  \<open>(400, 0)\<close> is drawn by the shader at \<open>-0.5 + 1i\<close>, as the claim says, while the
  tooltip's \<open>screenToComplex\<close> reports \<open>-0.5 - 1i\<close>; and selecting the rectangle from
  \<open>(300, 0)\<close> to \<open>(500, 100)\<close>, whose midpoint \<open>(400, 50)\<close> is drawn at imaginary part
  \<open>5/6\<close>, moves the centre to imaginary part \<open>-5/6\<close>.
\<close>

theorem tooltip_and_selection_do_not_flip_y:
  "drawn_at (new_renderer 100 800 600) 400 0 = (- 1 / 2, 1) \<and>
   spec_screenToComplex (getViewport (new_renderer 100 800 600)) 800 600 400 0 = (- 1 / 2, 1) \<and>
   screenToComplex (new_renderer 100 800 600) 400 0 = (- 1 / 2, - 1) \<and>
   snd (spec_screenToComplex (getViewport (new_renderer 100 800 600)) 800 600 400 50) = 5 / 6 \<and>
   viewportY (renderer_of (zoomToSelection 300 0 500 100 (new_MandelbrotSet 100 800 600)))
     = - 5 / 6"
proof -
  let ?r = "new_renderer 100 800 600"
  have a: "drawn_at ?r 400 0 = (- 1 / 2, 1)"
    by (simp add: new_renderer_800_600 drawn_at_def fragment_c_def fragment_at_def Let_def)
  have b: "spec_screenToComplex (getViewport ?r) 800 600 400 0 = (- 1 / 2, 1)"
    by (simp add: new_renderer_800_600 spec_screenToComplex_def getViewport_def Let_def)
  have c: "screenToComplex ?r 400 0 = (- 1 / 2, - 1)"
    by (simp add: new_renderer_800_600 screenToComplex_def getViewport_def Let_def)
  have d: "snd (spec_screenToComplex (getViewport ?r) 800 600 400 50) = 5 / 6"
    by (simp add: new_renderer_800_600 spec_screenToComplex_def getViewport_def Let_def)
  have e: "viewportY (renderer_of (zoomToSelection 300 0 500 100 (new_MandelbrotSet 100 800 600)))
     = - 5 / 6"
    by (simp add: new_MandelbrotSet_def new_renderer_800_600 zoomToSelection_def getViewport_def
        updateZoom_def updateViewport_def render_def Let_def)
  from a b c d e show ?thesis by simp
qed

section \<open>Selecting an area\<close>

lemma zoomToSelection_effect:
  "viewportX (renderer_of (zoomToSelection startX startY endX endY m)) =
     viewportX (renderer_of m) +
       ((startX + endX) / 2 / real_of_int (canvas_width (renderer_of m)) - 1 / 2) *
       (2 / zoom (renderer_of m) *
          (real_of_int (canvas_width (renderer_of m)) /
           real_of_int (canvas_height (renderer_of m))))"
  "viewportY (renderer_of (zoomToSelection startX startY endX endY m)) =
     viewportY (renderer_of m) +
       ((startY + endY) / 2 / real_of_int (canvas_height (renderer_of m)) - 1 / 2) *
       (2 / zoom (renderer_of m))"
  "zoom (renderer_of (zoomToSelection startX startY endX endY m)) =
     zoom (renderer_of m) *
       min (real_of_int (canvas_width (renderer_of m)) / \<bar>endX - startX\<bar>)
           (real_of_int (canvas_height (renderer_of m)) / \<bar>endY - startY\<bar>)"
proof -
  have lin: "(c - R / 2) + n * (R / w) = c + (n / w - 1 / 2) * R" for c R n w :: real
    by (simp add: algebra_simps)
  show "viewportX (renderer_of (zoomToSelection startX startY endX endY m)) =
     viewportX (renderer_of m) +
       ((startX + endX) / 2 / real_of_int (canvas_width (renderer_of m)) - 1 / 2) *
       (2 / zoom (renderer_of m) *
          (real_of_int (canvas_width (renderer_of m)) /
           real_of_int (canvas_height (renderer_of m))))"
    unfolding zoomToSelection_def getViewport_def updateZoom_def updateViewport_def render_def
      Let_def
    by (simp only: lin viewport.simps) simp
  show "viewportY (renderer_of (zoomToSelection startX startY endX endY m)) =
     viewportY (renderer_of m) +
       ((startY + endY) / 2 / real_of_int (canvas_height (renderer_of m)) - 1 / 2) *
       (2 / zoom (renderer_of m))"
    unfolding zoomToSelection_def getViewport_def updateZoom_def updateViewport_def render_def
      Let_def
    by (simp only: lin viewport.simps) simp
  show "zoom (renderer_of (zoomToSelection startX startY endX endY m)) =
     zoom (renderer_of m) *
       min (real_of_int (canvas_width (renderer_of m)) / \<bar>endX - startX\<bar>)
           (real_of_int (canvas_height (renderer_of m)) / \<bar>endY - startY\<bar>)"
    by (simp add: zoomToSelection_def getViewport_def updateZoom_def updateViewport_def
        render_def Let_def)
qed

text \<open>
  What holds for every pointer-up of a drag in Select mode: within the dead zone the
  viewport is left as it is; beyond it the zoom is multiplied by
  \<open>min (canvasWidth / width) (canvasHeight / height)\<close>, the real part of the new centre
  is the real part of the midpoint under the specification's mapper, and its imaginary
  part is the one the tooltip's conversion gives the midpoint.
\<close>

lemma mouseup_dead_zone:
  assumes "isDragging m" and "interactionMode m = Select" and "selectionStart m = Some (sx, sy)"
    and "\<bar>ex - sx\<bar> \<le> 10 \<or> \<bar>ey - sy\<bar> \<le> 10"
  shows "getViewport (renderer_of (canvas_mouseup ex ey m)) = getViewport (renderer_of m)"
  using assms by (auto simp add: canvas_mouseup_def Let_def)

lemma mouseup_zoom_and_real_part:
  assumes "isDragging m" and "interactionMode m = Select" and "selectionStart m = Some (sx, sy)"
    and "\<bar>ex - sx\<bar> > 10" and "\<bar>ey - sy\<bar> > 10"
  shows "zoom (renderer_of (canvas_mouseup ex ey m)) =
           zoom (renderer_of m) *
             min (real_of_int (canvas_width (renderer_of m)) / \<bar>ex - sx\<bar>)
                 (real_of_int (canvas_height (renderer_of m)) / \<bar>ey - sy\<bar>)"
    and "viewportX (renderer_of (canvas_mouseup ex ey m)) =
           fst (spec_screenToComplex (getViewport (renderer_of m))
                  (real_of_int (canvas_width (renderer_of m)))
                  (real_of_int (canvas_height (renderer_of m)))
                  ((sx + ex) / 2) ((sy + ey) / 2))"
    and "viewportY (renderer_of (canvas_mouseup ex ey m)) =
           snd (screenToComplex (renderer_of m) ((sx + ex) / 2) ((sy + ey) / 2))"
  using assms
  by (simp_all add: canvas_mouseup_def Let_def zoomToSelection_effect spec_screenToComplex_def
      getViewport_def screenToComplex_eq)

text \<open>
  C4. The imaginary part of the new centre is not the midpoint's under the coordinate
  mapping. On a fresh 800 by 600 view in Select mode, a drag from \<open>(100, 100)\<close> to
  \<open>(200, 200)\<close> has the midpoint \<open>(150, 150)\<close>, which the mapper (and the shader) place
  at \<open>-4/3 + 1/2 i\<close>; the pointer-up sets the zoom to \<open>min (800/100) (600/100) = 6\<close> and
  the centre to \<open>-4/3 - 1/2 i\<close>. A drag to \<open>(105, 105)\<close> changes nothing.
\<close>

theorem selection_centre_is_mirrored:
  "getViewport (renderer_of (canvas_mouseup 105 105
      (canvas_mousedown 100 100 ((new_MandelbrotSet 100 800 600)\<lparr>interactionMode := Select\<rparr>))))
     = \<lparr>view_x = - 1 / 2, view_y = 0, view_zoom = 1\<rparr> \<and>
   getViewport (renderer_of (canvas_mouseup 200 200
      (canvas_mousedown 100 100 ((new_MandelbrotSet 100 800 600)\<lparr>interactionMode := Select\<rparr>))))
     = \<lparr>view_x = - 4 / 3, view_y = - 1 / 2, view_zoom = 6\<rparr> \<and>
   spec_screenToComplex (getViewport (new_renderer 100 800 600)) 800 600 150 150
     = (- 4 / 3, 1 / 2) \<and>
   drawn_at (new_renderer 100 800 600) 150 150 = (- 4 / 3, 1 / 2)"
proof -
  let ?m = "canvas_mousedown 100 100
      ((new_MandelbrotSet 100 800 600)\<lparr>interactionMode := Select\<rparr>)"
  have m: "?m = \<lparr>renderer_of = new_renderer 100 800 600, isDragging = True, lastX = 100,
      lastY = 100, interactionMode = Select, selectionStart = Some (100, 100)\<rparr>"
    by (simp add: canvas_mousedown_def new_MandelbrotSet_def Let_def)
  have a: "getViewport (renderer_of (canvas_mouseup 105 105 ?m))
      = \<lparr>view_x = - 1 / 2, view_y = 0, view_zoom = 1\<rparr>"
    unfolding m
    by (simp add: canvas_mouseup_def Let_def getViewport_def new_renderer_800_600)
  have b: "getViewport (renderer_of (canvas_mouseup 200 200 ?m))
      = \<lparr>view_x = - 4 / 3, view_y = - 1 / 2, view_zoom = 6\<rparr>"
    unfolding m
    by (simp add: canvas_mouseup_def Let_def getViewport_def zoomToSelection_effect
        new_renderer_800_600)
  have c: "spec_screenToComplex (getViewport (new_renderer 100 800 600)) 800 600 150 150
      = (- 4 / 3, 1 / 2)"
    by (simp add: new_renderer_800_600 spec_screenToComplex_def getViewport_def Let_def)
  have d: "drawn_at (new_renderer 100 800 600) 150 150 = (- 4 / 3, 1 / 2)"
    by (simp add: new_renderer_800_600 drawn_at_def fragment_c_def fragment_at_def Let_def)
  from a b c d show ?thesis by simp
qed

section \<open>Zooming with the wheel\<close>

text \<open>
  C3. The wheel listener of \<open>src/index.ts\<close> takes the half-width and half-height of the
  view to be \<open>2 / zoom\<close>, while the shader draws a view of height \<open>2 / zoom\<close> and width
  \<open>2 / zoom * aspect\<close>. On a fresh 800 by 600 view with the pointer at \<open>(0, 300)\<close>, the
  point under the pointer is \<open>-11/6\<close>; after one wheel step that zooms in (factor 1.2)
  the point under the same pixel is \<open>-35/18\<close>. The later revision of the listener, on
  the same event, leaves \<open>-11/6\<close> under the pointer.
\<close>

theorem wheel_moves_point_under_pointer:
  "drawn_at (new_renderer 100 800 600) 0 300 = (- 11 / 6, 0) \<and>
   spec_screenToComplex (getViewport (new_renderer 100 800 600)) 800 600 0 300 = (- 11 / 6, 0) \<and>
   getViewport (renderer_of (canvas_wheel 0 300 (- 100) (new_MandelbrotSet 100 800 600)))
     = \<lparr>view_x = - 5 / 6, view_y = 0, view_zoom = 6 / 5\<rparr> \<and>
   drawn_at (renderer_of (canvas_wheel 0 300 (- 100) (new_MandelbrotSet 100 800 600))) 0 300
     = (- 35 / 18, 0) \<and>
   spec_screenToComplex
     (getViewport (renderer_of (canvas_wheel 0 300 (- 100) (new_MandelbrotSet 100 800 600))))
     800 600 0 300 = (- 35 / 18, 0) \<and>
   getViewport (renderer_of
       (canvas_wheel_relative 800 600 0 300 (- 100) (new_MandelbrotSet 100 800 600)))
     = \<lparr>view_x = - 13 / 18, view_y = 0, view_zoom = 6 / 5\<rparr> \<and>
   drawn_at (renderer_of
       (canvas_wheel_relative 800 600 0 300 (- 100) (new_MandelbrotSet 100 800 600))) 0 300
     = (- 11 / 6, 0)"
proof -
  let ?r = "new_renderer 100 800 600"
  let ?m = "new_MandelbrotSet 100 800 600"
  have w: "renderer_of (canvas_wheel 0 300 (- 100) ?m) =
      \<lparr>maxIterations = 100, viewportX = - 5 / 6, viewportY = 0, zoom = 6 / 5,
       canvas_width = 800, canvas_height = 600, clientWidth = 800, clientHeight = 600\<rparr>"
    by (simp add: canvas_wheel_def new_MandelbrotSet_def new_renderer_800_600 getViewport_def
        updateZoom_def updateViewport_def render_def resizeCanvasToDisplaySize_def
        calculateResolutionFactor_eq Let_def)
  have v: "renderer_of (canvas_wheel_relative 800 600 0 300 (- 100) ?m) =
      \<lparr>maxIterations = 100, viewportX = - 13 / 18, viewportY = 0, zoom = 6 / 5,
       canvas_width = 800, canvas_height = 600, clientWidth = 800, clientHeight = 600\<rparr>"
    by (simp add: canvas_wheel_relative_def new_MandelbrotSet_def new_renderer_800_600
        getViewport_def updateZoom_def updateViewport_def render_def
        resizeCanvasToDisplaySize_def calculateResolutionFactor_eq Let_def)
  have a: "drawn_at ?r 0 300 = (- 11 / 6, 0)"
    by (simp add: new_renderer_800_600 drawn_at_def fragment_c_def fragment_at_def Let_def)
  have b: "spec_screenToComplex (getViewport ?r) 800 600 0 300 = (- 11 / 6, 0)"
    by (simp add: new_renderer_800_600 spec_screenToComplex_def getViewport_def Let_def)
  have c: "getViewport (renderer_of (canvas_wheel 0 300 (- 100) ?m))
      = \<lparr>view_x = - 5 / 6, view_y = 0, view_zoom = 6 / 5\<rparr>"
    by (simp add: w getViewport_def)
  have d: "drawn_at (renderer_of (canvas_wheel 0 300 (- 100) ?m)) 0 300 = (- 35 / 18, 0)"
    by (simp add: w drawn_at_def fragment_c_def fragment_at_def Let_def)
  have e: "spec_screenToComplex (getViewport (renderer_of (canvas_wheel 0 300 (- 100) ?m)))
      800 600 0 300 = (- 35 / 18, 0)"
    by (simp add: w spec_screenToComplex_def getViewport_def Let_def)
  have f: "getViewport (renderer_of (canvas_wheel_relative 800 600 0 300 (- 100) ?m))
      = \<lparr>view_x = - 13 / 18, view_y = 0, view_zoom = 6 / 5\<rparr>"
    by (simp add: v getViewport_def)
  have g: "drawn_at (renderer_of (canvas_wheel_relative 800 600 0 300 (- 100) ?m)) 0 300
      = (- 11 / 6, 0)"
    by (simp add: v drawn_at_def fragment_c_def fragment_at_def Let_def)
  from a b c d e f g show ?thesis by simp
qed

text \<open>
  With the pointer at the middle of the canvas the listener leaves the centre where it
  is, so the point under the pointer stays: the case the specification tests.
\<close>

lemma wheel_at_centre:
  assumes "real_of_int (canvas_width (renderer_of m)) = 2 * px"
    and "real_of_int (canvas_height (renderer_of m)) = 2 * py"
    and "px \<noteq> 0" and "py \<noteq> 0"
  shows "viewportX (renderer_of (canvas_wheel px py deltaY m)) = viewportX (renderer_of m)"
    and "viewportY (renderer_of (canvas_wheel px py deltaY m)) = viewportY (renderer_of m)"
  using assms
  by (simp_all add: canvas_wheel_def getViewport_def updateZoom_def updateViewport_def
      render_def Let_def)

text \<open>
  The later revision of the listener keeps the point under the pointer where it is,
  exactly, under the specification's mapper over the display rectangle, for every
  pointer position, either scroll direction and every non-zero zoom.
\<close>

lemma wheel_relative_keeps_point:
  assumes "zoom (renderer_of m) \<noteq> 0"
    and "real_of_int (clientWidth (renderer_of m)) = rw"
    and "real_of_int (clientHeight (renderer_of m)) = rh"
  shows "spec_screenToComplex
           (getViewport (renderer_of (canvas_wheel_relative rw rh px py deltaY m)))
           rw rh px py
         = spec_screenToComplex (getViewport (renderer_of m)) rw rh px py \<and>
         zoom (renderer_of (canvas_wheel_relative rw rh px py deltaY m)) =
           zoom (renderer_of m) * (if deltaY > 0 then 0.8 else 1.2)"
  using assms
  by (simp add: canvas_wheel_relative_def spec_screenToComplex_def getViewport_def
      updateZoom_def updateViewport_def render_def Let_def)

text \<open>
  Under its own conversion the listener is consistent: the point it computes for the
  pointer before the step is the point it would compute for it afterwards.
\<close>

lemma wheel_own_conversion:
  "viewportX (renderer_of (canvas_wheel px py deltaY m)) +
     ((px / real_of_int (canvas_width (renderer_of m))) * 2 - 1) *
       (2 / zoom (renderer_of (canvas_wheel px py deltaY m)))
   = viewportX (renderer_of m) +
     ((px / real_of_int (canvas_width (renderer_of m))) * 2 - 1) * (2 / zoom (renderer_of m))"
  by (simp add: canvas_wheel_def getViewport_def updateZoom_def updateViewport_def render_def
      Let_def)

end
